theory Spec2Isabelle
  imports Main "HOL-Library.Word" "HOL-Library.Sublist"
begin

section \<open>JavaScript strings\<close>

text \<open>
  A JavaScript string is a sequence of UTF-16 code units. \<open>str\<close> turns an ASCII literal
  into such a string, so that concrete inputs stay readable.
\<close>

type_synonym jschar = "16 word"
type_synonym jsstring = "jschar list"

definition str :: "string \<Rightarrow> jsstring" where
  "str s = map (\<lambda>c. of_nat (of_char c)) s"

abbreviation TAB :: jschar where "TAB \<equiv> 0x09"
abbreviation LF :: jschar where "LF \<equiv> 0x0A"
abbreviation CR :: jschar where "CR \<equiv> 0x0D"
abbreviation SPACE :: jschar where "SPACE \<equiv> 0x20"
abbreviation DQ :: jschar where "DQ \<equiv> 0x22"
abbreviation HASH :: jschar where "HASH \<equiv> 0x23"
abbreviation SQ :: jschar where "SQ \<equiv> 0x27"
abbreviation EQ :: jschar where "EQ \<equiv> 0x3D"
abbreviation BACKSLASH :: jschar where "BACKSLASH \<equiv> 0x5C"

text \<open>
  The code units that \<open>String.prototype.trim\<close> strips: ECMAScript's WhiteSpace
  (TAB, VT, FF, ZWNBSP and the space separators) and LineTerminator (LF, CR, LS, PS).
\<close>

definition isWhiteSpace :: "jschar \<Rightarrow> bool" where
  "isWhiteSpace c \<longleftrightarrow>
     c = 0x09 \<or> c = 0x0A \<or> c = 0x0B \<or> c = 0x0C \<or> c = 0x0D \<or> c = 0x20 \<or>
     c = 0xA0 \<or> c = 0x1680 \<or> (0x2000 \<le> c \<and> c \<le> 0x200A) \<or>
     c = 0x2028 \<or> c = 0x2029 \<or> c = 0x202F \<or> c = 0x205F \<or> c = 0x3000 \<or>
     c = 0xFEFF"

definition trim :: "jsstring \<Rightarrow> jsstring" where
  "trim s = rev (dropWhile isWhiteSpace (rev (dropWhile isWhiteSpace s)))"

definition startsWith :: "jsstring \<Rightarrow> jsstring \<Rightarrow> bool" where
  "startsWith s p \<longleftrightarrow> take (length p) s = p"

definition endsWith :: "jsstring \<Rightarrow> jsstring \<Rightarrow> bool" where
  "endsWith s p \<longleftrightarrow> length p \<le> length s \<and> drop (length s - length p) s = p"

text \<open>\<open>s.indexOf(c)\<close> for a one-character pattern: the first position, or -1.\<close>

fun indexOf :: "jsstring \<Rightarrow> jschar \<Rightarrow> int" where
  "indexOf [] c = -1"
| "indexOf (x # xs) c =
     (if x = c then 0
      else (let r = indexOf xs c in if r = -1 then -1 else r + 1))"

text \<open>
  \<open>s.substring(a, b)\<close>: both indices are clamped to \<open>[0, length]\<close> and swapped when
  \<open>a > b\<close>; \<open>s.substring(a)\<close> runs to the end of the string.
\<close>

definition substring :: "jsstring \<Rightarrow> int \<Rightarrow> int \<Rightarrow> jsstring" where
  "substring s a b =
     (let n = int (length s);
          a' = min (max a 0) n;
          b' = min (max b 0) n;
          from = min a' b';
          to = max a' b'
      in take (nat (to - from)) (drop (nat from) s))"

definition substring_from :: "jsstring \<Rightarrow> int \<Rightarrow> jsstring" where
  "substring_from s a = substring s a (int (length s))"

text \<open>
  \<open>s.slice(a, b)\<close>: a negative index counts from the end; an empty span gives the
  empty string.
\<close>

definition slice :: "jsstring \<Rightarrow> int \<Rightarrow> int \<Rightarrow> jsstring" where
  "slice s a b =
     (let n = int (length s);
          from = (if a < 0 then max (n + a) 0 else min a n);
          to = (if b < 0 then max (n + b) 0 else min b n)
      in take (nat (max (to - from) 0)) (drop (nat from) s))"

text \<open>\<open>s.includes(p)\<close>: \<open>p\<close> occurs somewhere in \<open>s\<close>.\<close>

fun includes_str :: "jsstring \<Rightarrow> jsstring \<Rightarrow> bool" where
  "includes_str [] p = (p = [])"
| "includes_str (x # xs) p = (startsWith (x # xs) p \<or> includes_str xs p)"

text \<open>\<open>s.replace(/"/g, '\\"')\<close>: every double quote becomes backslash, double quote.\<close>

fun replace_dq :: "jsstring \<Rightarrow> jsstring" where
  "replace_dq [] = []"
| "replace_dq (c # cs) =
     (if c = DQ then BACKSLASH # DQ # replace_dq cs else c # replace_dq cs)"

text \<open>
  \<open>s.split(sep)\<close> for a one-character separator: the segments between the
  occurrences of \<open>sep\<close>; the empty string gives one empty segment.
\<close>

fun split_str :: "jsstring \<Rightarrow> jschar \<Rightarrow> jsstring list" where
  "split_str [] sep = [[]]"
| "split_str (c # cs) sep =
     (if c = sep then [] # split_str cs sep
      else (case split_str cs sep of
              [] \<Rightarrow> [[c]]
            | seg # segs \<Rightarrow> (c # seg) # segs))"

text \<open>
  \<open>xs.join(sep)\<close> as ECMAScript states it: a result string \<open>R\<close> and an index \<open>k\<close>;
  the separator is added before every element but the first.
\<close>

fun join_loop :: "jsstring list \<Rightarrow> jsstring \<Rightarrow> nat \<Rightarrow> jsstring \<Rightarrow> jsstring" where
  "join_loop [] sep k R = R"
| "join_loop (x # xs) sep k R =
     join_loop xs sep (k + 1) ((if k > 0 then R @ sep else R) @ x)"

definition join_str :: "jsstring list \<Rightarrow> jsstring \<Rightarrow> jsstring" where
  "join_str xs sep = join_loop xs sep 0 []"

text \<open>\<open>xs.findIndex(p)\<close>: the first index whose element satisfies \<open>p\<close>, or -1.\<close>

fun findIndex :: "('a \<Rightarrow> bool) \<Rightarrow> 'a list \<Rightarrow> int" where
  "findIndex p [] = -1"
| "findIndex p (x # xs) =
     (if p x then 0
      else (let r = findIndex p xs in if r = -1 then -1 else r + 1))"

text \<open>\<open>xs.splice(i, 1)\<close> for an index inside the array: the element at \<open>i\<close> is removed.\<close>

definition splice1 :: "'a list \<Rightarrow> int \<Rightarrow> 'a list" where
  "splice1 xs i = take (nat i) xs @ drop (nat i + 1) xs"

section \<open>The file system\<close>

text \<open>
  \<open>fs.readFileSync(path, 'utf8')\<close> returns the decoded content of a file or throws;
  \<open>fs.writeFileSync\<close> replaces the content or throws.
\<close>

datatype error = Error jsstring | IoError

record filesystem =
  files :: "jsstring \<rightharpoonup> jsstring"
  writable :: "jsstring \<Rightarrow> bool"

definition readFileSync :: "filesystem \<Rightarrow> jsstring \<Rightarrow> error + jsstring" where
  "readFileSync fs p = (case files fs p of None \<Rightarrow> Inl IoError | Some content \<Rightarrow> Inr content)"

definition writeFileSync :: "filesystem \<Rightarrow> jsstring \<Rightarrow> jsstring \<Rightarrow> error + filesystem" where
  "writeFileSync fs p data =
     (if writable fs p then Inr (fs\<lparr>files := (files fs)(p \<mapsto> data)\<rparr>) else Inl IoError)"

section \<open>env.service.js\<close>

subsection \<open>The parsed structure\<close>

text \<open>
  The objects pushed on \<open>result.lines\<close>: \<open>{type: 'empty', raw}\<close>,
  \<open>{type: 'comment', raw}\<close>, \<open>{type: 'entry', key, value, encrypted, raw}\<close> and
  \<open>{type: 'unknown', raw}\<close>.
\<close>

datatype line =
    is_Empty: Empty (line_raw: jsstring)
  | is_Comment: Comment (line_raw: jsstring)
  | is_Entry: Entry (line_key: jsstring) (line_value: jsstring) (line_encrypted: bool)
      (line_raw: jsstring)
  | is_Unknown: Unknown (line_raw: jsstring)

record parsed =
  filepath :: jsstring
  lines :: "line list"

subsection \<open>parseEnvFile\<close>

text \<open>
  "Handle quoted values": from the text after the \<open>=\<close> to \<open>parsedValue\<close>.
\<close>

definition handleQuoted :: "jsstring \<Rightarrow> jsstring" where
  "handleQuoted value =
     (let trimmedValue = trim value in
      if (startsWith trimmedValue [DQ] \<and> endsWith trimmedValue [DQ]) \<or>
         (startsWith trimmedValue [SQ] \<and> endsWith trimmedValue [SQ])
      then slice trimmedValue 1 (-1)
      else trimmedValue)"

text \<open>The body of the \<open>for\<close> loop: the object pushed for one raw line.\<close>

definition parseLine :: "jsstring \<Rightarrow> line" where
  "parseLine raw =
     (let trimmed = trim raw in
      if trimmed = [] then Empty raw
      else if startsWith trimmed [HASH] then Comment raw
      else
        (let eqIndex = indexOf raw EQ in
         if eqIndex \<noteq> -1 then
           (let key = trim (substring raw 0 eqIndex);
                value = substring_from raw (eqIndex + 1);
                parsedValue = handleQuoted value;
                encrypted = startsWith parsedValue (str ''encrypted:'')
            in Entry key parsedValue encrypted raw)
         else Unknown raw))"

text \<open>The loop over \<open>lines\<close>, pushing on \<open>result.lines\<close>.\<close>

fun parse_loop :: "jsstring list \<Rightarrow> line list \<Rightarrow> line list" where
  "parse_loop [] result_lines = result_lines"
| "parse_loop (raw # rest) result_lines = parse_loop rest (result_lines @ [parseLine raw])"

text \<open>
  The body of the \<open>try\<close> block once the content is read: what the specification calls
  \<open>parse\<close>. \<open>parseEnvFile\<close> reads the file first and rethrows a failure of the read.
\<close>

definition parseContent :: "jsstring \<Rightarrow> jsstring \<Rightarrow> parsed" where
  "parseContent path content =
     \<lparr>filepath = path, lines = parse_loop (split_str content LF) []\<rparr>"

definition parseEnvFile :: "filesystem \<Rightarrow> jsstring \<Rightarrow> error + parsed" where
  "parseEnvFile fs path =
     (case readFileSync fs path of
        Inl err \<Rightarrow> Inl err
      | Inr content \<Rightarrow> Inr (parseContent path content))"

subsection \<open>writeEnvFile\<close>

definition needsQuotes :: "jsstring \<Rightarrow> bool" where
  "needsQuotes v \<longleftrightarrow>
     includes_str v [SPACE] \<or> includes_str v [HASH] \<or> includes_str v [LF] \<or>
     includes_str v [DQ] \<or> includes_str v [SQ]"

text \<open>The callback of \<open>parsed.lines.map\<close>.\<close>

fun writeLine :: "line \<Rightarrow> jsstring" where
  "writeLine (Entry k v e r) =
     (if needsQuotes v then k @ [EQ, DQ] @ replace_dq v @ [DQ] else k @ [EQ] @ v)"
| "writeLine l = line_raw l"

text \<open>
  The string handed to \<open>fs.writeFileSync\<close>: what the specification calls
  \<open>serialize\<close>.
\<close>

definition serialize :: "parsed \<Rightarrow> jsstring" where
  "serialize p = join_str (map writeLine (lines p)) [LF]"

definition writeEnvFile :: "filesystem \<Rightarrow> jsstring \<Rightarrow> parsed \<Rightarrow> error + filesystem" where
  "writeEnvFile fs path p = writeFileSync fs path (serialize p)"

subsection \<open>addEntry, updateEntry, deleteEntry\<close>

text \<open>
  The three functions change \<open>parsed\<close> in place and return it, or throw. The model returns
  the outcome (\<open>Inl\<close> the thrown error) together with the structure as the call leaves it.
\<close>

definition isEntryWithKey :: "jsstring \<Rightarrow> line \<Rightarrow> bool" where
  "isEntryWithKey k l \<longleftrightarrow> (case l of Entry k' v e r \<Rightarrow> k' = k | _ \<Rightarrow> False)"

definition alreadyExists :: "jsstring \<Rightarrow> error" where
  "alreadyExists k = Error (str ''Key '' @ [DQ] @ k @ [DQ] @ str '' already exists'')"

definition notFound :: "jsstring \<Rightarrow> error" where
  "notFound k = Error (str ''Key '' @ [DQ] @ k @ [DQ] @ str '' not found'')"

definition addEntry :: "parsed \<Rightarrow> jsstring \<Rightarrow> jsstring \<Rightarrow> (error + unit) \<times> parsed" where
  "addEntry p k v =
     (case find (isEntryWithKey k) (lines p) of
        Some existing \<Rightarrow> (Inl (alreadyExists k), p)
      | None \<Rightarrow>
          (let encrypted = startsWith v (str ''encrypted:'')
           in (Inr (), p\<lparr>lines := lines p @ [Entry k v encrypted (k @ [EQ] @ v)]\<rparr>)))"

text \<open>
  \<open>find\<close> returns the first matching element of the array itself, so the three
  assignments of \<open>updateEntry\<close> change that element where it stands.
\<close>

fun assignEntry :: "jsstring \<Rightarrow> jsstring \<Rightarrow> line \<Rightarrow> line" where
  "assignEntry k newValue (Entry k' v e r) =
     Entry k' newValue (startsWith newValue (str ''encrypted:'')) (k @ [EQ] @ newValue)"
| "assignEntry k newValue l = l"

fun assignFound :: "jsstring \<Rightarrow> jsstring \<Rightarrow> line list \<Rightarrow> line list" where
  "assignFound k newValue [] = []"
| "assignFound k newValue (l # ls) =
     (if isEntryWithKey k l then assignEntry k newValue l # ls
      else l # assignFound k newValue ls)"

definition updateEntry :: "parsed \<Rightarrow> jsstring \<Rightarrow> jsstring \<Rightarrow> (error + unit) \<times> parsed" where
  "updateEntry p k newValue =
     (case find (isEntryWithKey k) (lines p) of
        None \<Rightarrow> (Inl (notFound k), p)
      | Some entry \<Rightarrow> (Inr (), p\<lparr>lines := assignFound k newValue (lines p)\<rparr>))"

definition deleteEntry :: "parsed \<Rightarrow> jsstring \<Rightarrow> (error + unit) \<times> parsed" where
  "deleteEntry p k =
     (let index = findIndex (isEntryWithKey k) (lines p) in
      if index = -1 then (Inl (notFound k), p)
      else (Inr (), p\<lparr>lines := splice1 (lines p) index\<rparr>))"

section \<open>The specification's words\<close>

text \<open>
  The definitions of this section follow the specification, not the source: they are what
  the source is compared with.
\<close>

subsection \<open>Serializer\<close>

text \<open>
  A value needs quoting when it contains a space, \<open>#\<close>, a line feed or either quote
  character; quoting prefixes every embedded double quote with a backslash; the emitted
  lines are joined with one line feed between consecutive lines.
\<close>

definition spec_needs_quoting :: "jsstring \<Rightarrow> bool" where
  "spec_needs_quoting v \<longleftrightarrow>
     SPACE \<in> set v \<or> HASH \<in> set v \<or> LF \<in> set v \<or> DQ \<in> set v \<or> SQ \<in> set v"

definition spec_escape :: "jsstring \<Rightarrow> jsstring" where
  "spec_escape v = concat (map (\<lambda>c. if c = DQ then [BACKSLASH, DQ] else [c]) v)"

fun spec_emit :: "line \<Rightarrow> jsstring" where
  "spec_emit (Empty r) = r"
| "spec_emit (Comment r) = r"
| "spec_emit (Unknown r) = r"
| "spec_emit (Entry k v e r) =
     (if spec_needs_quoting v then k @ [EQ] @ [DQ] @ spec_escape v @ [DQ]
      else k @ [EQ] @ v)"

fun spec_join :: "jsstring list \<Rightarrow> jsstring" where
  "spec_join [] = []"
| "spec_join [x] = x"
| "spec_join (x # y # ys) = x @ [LF] @ spec_join (y # ys)"

text \<open>Two lines that differ at most in the \<open>rawText\<close> of an Entry.\<close>

fun same_but_entry_raw :: "line \<Rightarrow> line \<Rightarrow> bool" where
  "same_but_entry_raw (Entry k v e r) (Entry k' v' e' r') = (k = k' \<and> v = v' \<and> e = e')"
| "same_but_entry_raw l l' = (l = l')"

subsection \<open>Mutators\<close>

text \<open>An Entry with the given key exists in the document.\<close>

definition hasEntry :: "parsed \<Rightarrow> jsstring \<Rightarrow> bool" where
  "hasEntry p k \<longleftrightarrow> (\<exists>l\<in>set (lines p). isEntryWithKey k l)"

subsection \<open>Parser\<close>

text \<open>
  The four Line variants, and the classification of a raw line: empty after trimming,
  starting with \<open>#\<close> after trimming, containing \<open>=\<close>, or none of these.
\<close>

datatype variant = Blank | CommentLine | EntryLine | Unrecognized

fun variant_of :: "line \<Rightarrow> variant" where
  "variant_of (Empty r) = Blank"
| "variant_of (Comment r) = CommentLine"
| "variant_of (Entry k v e r) = EntryLine"
| "variant_of (Unknown r) = Unrecognized"

definition spec_classify :: "jsstring \<Rightarrow> variant" where
  "spec_classify raw =
     (if trim raw = [] then Blank
      else if hd (trim raw) = HASH then CommentLine
      else if EQ \<in> set raw then EntryLine
      else Unrecognized)"

text \<open>
  The value of an entry, from the text right of the first \<open>=\<close>: trimmed; when the
  trimmed text starts and ends with the same quote character and has length at least 2,
  one leading and one trailing quote character are stripped.
\<close>

definition spec_value :: "jsstring \<Rightarrow> jsstring" where
  "spec_value rhs =
     (let t = trim rhs in
      if 2 \<le> length t \<and> ((hd t = DQ \<and> last t = DQ) \<or> (hd t = SQ \<and> last t = SQ))
      then butlast (tl t)
      else t)"

text \<open>
  The first unescaped occurrence of a character, a backslash escaping the character
  after it.
\<close>

fun spec_first_unescaped :: "jschar \<Rightarrow> jsstring \<Rightarrow> nat option" where
  "spec_first_unescaped c [] = None"
| "spec_first_unescaped c [x] = (if x = c then Some 0 else None)"
| "spec_first_unescaped c (x # y # rest) =
     (if x = BACKSLASH then map_option (\<lambda>i. i + 2) (spec_first_unescaped c rest)
      else if x = c then Some 0
      else map_option Suc (spec_first_unescaped c (y # rest)))"

text \<open>
  \<open>isEncryptedMarker\<close> is true iff the value begins with the literal prefix
  \<open>encrypted:\<close>.
\<close>

definition spec_marker_ok :: "line \<Rightarrow> bool" where
  "spec_marker_ok l \<longleftrightarrow>
     (case l of
        Entry k v e r \<Rightarrow> e = prefix (str ''encrypted:'') v
      | _ \<Rightarrow> True)"

text \<open>
  The documents the operations can produce: the result of parsing, and the result of a
  successful addEntry, updateEntry or deleteEntry on such a document.
\<close>

inductive reachable :: "parsed \<Rightarrow> bool" where
  parse: "reachable (parseContent path content)"
| add: "reachable p \<Longrightarrow> addEntry p k v = (Inr (), p') \<Longrightarrow> reachable p'"
| update: "reachable p \<Longrightarrow> updateEntry p k v = (Inr (), p') \<Longrightarrow> reachable p'"
| delete: "reachable p \<Longrightarrow> deleteEntry p k = (Inr (), p') \<Longrightarrow> reachable p'"

subsection \<open>Round trip\<close>

text \<open>
  The text right of the first \<open>=\<close> of a raw line, and the hypothesis of the round-trip
  property: on every Entry line the value is not single-quoted and needs no quoting,
  whether the value is read before or after the parser has unwrapped it.
\<close>

definition spec_value_text :: "jsstring \<Rightarrow> jsstring" where
  "spec_value_text raw = drop (Suc (length (takeWhile (\<lambda>c. c \<noteq> EQ) raw))) raw"

definition spec_single_quoted :: "jsstring \<Rightarrow> bool" where
  "spec_single_quoted rhs \<longleftrightarrow>
     (let t = trim rhs in 2 \<le> length t \<and> hd t = SQ \<and> last t = SQ)"

definition spec_roundtrip_pre :: "jsstring \<Rightarrow> bool" where
  "spec_roundtrip_pre text \<longleftrightarrow>
     list_all
       (\<lambda>raw. spec_classify raw = EntryLine \<longrightarrow>
          \<not> spec_single_quoted (spec_value_text raw) \<and>
          \<not> spec_needs_quoting (spec_value_text raw) \<and>
          \<not> spec_needs_quoting (spec_value (spec_value_text raw)))
       (split_str text LF)"

text \<open>
  An Entry line that is already in the serializer's unquoted form: no white space around
  the text before the first \<open>=\<close> or around the text after it, and nothing in the
  latter that needs quoting.
\<close>

definition plain_entry_line :: "jsstring \<Rightarrow> bool" where
  "plain_entry_line raw \<longleftrightarrow>
     (let k = takeWhile (\<lambda>c. c \<noteq> EQ) raw; v = spec_value_text raw
      in trim k = k \<and> trim v = v \<and> \<not> spec_needs_quoting v)"

section \<open>Example documents\<close>

definition doc1 :: parsed where
  "doc1 = \<lparr>filepath = str ''.env'',
            lines = [Comment (str ''# db''), Entry (str ''A'') (str ''1'') False (str ''A=1'')]\<rparr>"

definition doc2 :: parsed where
  "doc2 = \<lparr>filepath = str ''.env'',
            lines = [Comment (str ''# db''), Entry (str ''A'') (str ''1'') False (str ''A=1''),
                     Unknown (str ''junk''), Entry (str ''B'') (str ''2'') False (str ''B=2''),
                     Entry (str ''A'') (str ''3'') False (str ''A=3'')]\<rparr>"

definition text1 :: jsstring where
  "text1 = str ''# db'' @ [LF] @ str ''A=1'' @ [LF, LF] @ str ''URL=http://h/?a=b'' @ [LF]"

section \<open>Built-in string and array operations\<close>

lemma startsWith_single: "startsWith s [c] \<longleftrightarrow> s \<noteq> [] \<and> hd s = c"
  by (cases s) (auto simp: startsWith_def)

lemma includes_single: "includes_str s [c] \<longleftrightarrow> c \<in> set s"
  by (induction s) (auto simp: startsWith_single)

lemma join_loop_pos: "k > 0 \<Longrightarrow> join_loop xs sep k R = R @ concat (map (\<lambda>x. sep @ x) xs)"
  by (induction xs arbitrary: k R) simp_all

lemma join_str_Nil: "join_str [] sep = []"
  by (simp add: join_str_def)

lemma join_str_Cons: "join_str (x # xs) sep = x @ concat (map (\<lambda>y. sep @ y) xs)"
  by (simp add: join_str_def join_loop_pos)

lemma spec_join_Cons: "spec_join (x # xs) = x @ concat (map (\<lambda>y. [LF] @ y) xs)"
  by (induction xs arbitrary: x) simp_all

lemma join_str_spec: "join_str xs [LF] = spec_join xs"
  by (cases xs) (simp_all add: join_str_Nil join_str_Cons spec_join_Cons)

lemma find_None_iff_no: "find P xs = None \<longleftrightarrow> \<not> (\<exists>x\<in>set xs. P x)"
  by (auto simp: find_None_iff)

lemma find_Some_ex: "(\<exists>x. find P xs = Some x) \<longleftrightarrow> (\<exists>x\<in>set xs. P x)"
  using find_None_iff_no [of P xs] by (cases "find P xs") auto

lemma findIndex_ge: "findIndex P xs \<ge> -1"
  by (induction xs) (simp_all add: Let_def)

lemma findIndex_none: "findIndex P xs = -1 \<longleftrightarrow> \<not> (\<exists>x\<in>set xs. P x)"
proof (induction xs)
  case Nil
  show ?case by simp
next
  case (Cons x xs)
  have "findIndex P xs \<ge> -1" by (rule findIndex_ge)
  with Cons show ?case by (auto simp: Let_def)
qed

lemma findIndex_split:
  "\<exists>x\<in>set xs. P x \<Longrightarrow>
   \<exists>pre e post. xs = pre @ e # post \<and> P e \<and> (\<forall>x\<in>set pre. \<not> P x) \<and>
     findIndex P xs = int (length pre)"
proof (induction xs)
  case Nil
  then show ?case by simp
next
  case (Cons x xs)
  show ?case
  proof (cases "P x")
    case True
    then have "x # xs = [] @ x # xs \<and> P x \<and> (\<forall>y\<in>set []. \<not> P y) \<and>
        findIndex P (x # xs) = int (length ([]::'a list))"
      by simp
    then show ?thesis by blast
  next
    case False
    with Cons.prems have "\<exists>y\<in>set xs. P y" by simp
    from Cons.IH [OF this] obtain pre e post where
      h: "xs = pre @ e # post" "P e" "\<forall>y\<in>set pre. \<not> P y" "findIndex P xs = int (length pre)"
      by blast
    from h False have "x # xs = (x # pre) @ e # post \<and> P e \<and> (\<forall>y\<in>set (x # pre). \<not> P y) \<and>
        findIndex P (x # xs) = int (length (x # pre))"
      by (simp add: Let_def)
    then show ?thesis by blast
  qed
qed

lemma splice1_at: "splice1 (pre @ e # post) (int (length pre)) = pre @ post"
  by (simp add: splice1_def)

lemma indexOf_findIndex: "indexOf s c = findIndex (\<lambda>x. x = c) s"
  by (induction s) simp_all

lemma indexOf_none: "indexOf s c = -1 \<longleftrightarrow> c \<notin> set s"
  by (simp add: indexOf_findIndex findIndex_none)

lemma indexOf_split:
  assumes "c \<in> set s"
  shows "\<exists>before after. s = before @ c # after \<and> c \<notin> set before \<and>
           indexOf s c = int (length before)"
proof -
  from assms have "\<exists>x\<in>set s. x = c" by simp
  from findIndex_split [OF this] show ?thesis
    by (fastforce simp: indexOf_findIndex)
qed

lemma split_first_unique:
  "b @ c # a = b' @ c # a' \<Longrightarrow> c \<notin> set b \<Longrightarrow> c \<notin> set b' \<Longrightarrow> b = b' \<and> a = a'"
proof (induction b arbitrary: b')
  case Nil
  then show ?case by (cases b') auto
next
  case (Cons x b)
  then show ?case by (cases b') auto
qed

lemma substring_before: "substring (before @ c # after) 0 (int (length before)) = before"
  by (simp add: substring_def Let_def)

lemma substring_after:
  "substring_from (before @ c # after) (int (length before) + 1) = after"
  by (simp add: substring_from_def substring_def Let_def nat_add_distrib)

lemma split_str_not_Nil: "split_str s c \<noteq> []"
  by (induction s) (auto split: list.splits)

lemma split_str_no_sep: "seg \<in> set (split_str s c) \<Longrightarrow> c \<notin> set seg"
proof (induction s arbitrary: seg)
  case Nil
  then show ?case by simp
next
  case (Cons x s)
  show ?case
  proof (cases "x = c")
    case True
    with Cons show ?thesis by auto
  next
    case False
    obtain h t where ht: "split_str s c = h # t"
      using split_str_not_Nil [of s c] by (cases "split_str s c") auto
    with False Cons.prems have "seg = x # h \<or> seg \<in> set t" by simp
    then show ?thesis
    proof
      assume "seg = x # h"
      moreover have "c \<notin> set h" using Cons.IH [of h] ht by simp
      ultimately show ?thesis using False by simp
    next
      assume "seg \<in> set t"
      then show ?thesis using Cons.IH [of seg] ht by simp
    qed
  qed
qed

lemma spec_join_split: "spec_join (split_str s LF) = s"
proof (induction s)
  case Nil
  show ?case by simp
next
  case (Cons x s)
  obtain h t where ht: "split_str s LF = h # t"
    using split_str_not_Nil [of s LF] by (cases "split_str s LF") auto
  show ?case
  proof (cases "x = LF")
    case True
    with Cons ht show ?thesis by simp
  next
    case False
    with Cons ht show ?thesis by (simp add: spec_join_Cons)
  qed
qed

section \<open>The serializer\<close>

lemma needsQuotes_spec: "needsQuotes v = spec_needs_quoting v"
  by (simp add: needsQuotes_def spec_needs_quoting_def includes_single)

lemma replace_dq_spec: "replace_dq v = spec_escape v"
  by (induction v) (simp_all add: spec_escape_def)

lemma writeLine_spec: "writeLine l = spec_emit l"
  by (cases l) (simp_all add: needsQuotes_spec replace_dq_spec)

lemma writeEnvFile_writes:
  "writable fs path \<Longrightarrow>
   writeEnvFile fs path p = Inr (fs\<lparr>files := (files fs)(path \<mapsto> serialize p)\<rparr>)"
  by (simp add: writeEnvFile_def writeFileSync_def)

lemma writeEnvFile_fails: "\<not> writable fs path \<Longrightarrow> writeEnvFile fs path p = Inl IoError"
  by (simp add: writeEnvFile_def writeFileSync_def)

text \<open>
  Claim C3. For every document, serialize emits the rawText of each Blank, Comment and
  Unrecognized line unchanged; for each Entry it emits \<open>key="v"\<close>, every embedded
  double quote prefixed by a backslash, when the value contains a space, \<open>#\<close>, a line
  feed or either quote character, and \<open>key=value\<close> otherwise; the emitted strings are
  joined with exactly one line feed between consecutive lines, and no trailing line feed
  is added.
\<close>

theorem serialize_emits_and_joins:
  "serialize p = spec_join (map spec_emit (lines p))"
  by (simp add: serialize_def join_str_spec writeLine_spec cong: map_cong)

theorem serialize_emits_and_joins_witness:
  "serialize (doc1\<lparr>lines := lines doc1 @ [Entry (str ''B'') (str ''a b'') False (str ''B=a b'')]\<rparr>) =
     str ''# db'' @ [LF] @ str ''A=1'' @ [LF] @ str ''B='' @ [DQ] @ str ''a b'' @ [DQ]"
  using serialize_emits_and_joins
    [of "doc1\<lparr>lines := lines doc1 @ [Entry (str ''B'') (str ''a b'') False (str ''B=a b'')]\<rparr>"]
  by (simp add: doc1_def str_def spec_needs_quoting_def spec_escape_def)

lemma writeLine_same: "same_but_entry_raw l l' \<Longrightarrow> writeLine l = writeLine l'"
  by (cases l; cases l') simp_all

lemma map_writeLine_same:
  "list_all2 same_but_entry_raw ls ls' \<Longrightarrow> map writeLine ls = map writeLine ls'"
  by (induction rule: list_all2_induct) (simp_all add: writeLine_same)

text \<open>
  Claim C10. Two documents whose line sequences are identical except for the rawText of
  Entry lines serialize to the same text: the output depends only on the key and value of
  Entry lines and the rawText of the other lines, so the unquoted rawText that addEntry
  and updateEntry store never reaches the saved file.
\<close>

theorem serialize_ignores_entry_raw:
  assumes "list_all2 same_but_entry_raw (lines p) (lines q)"
  shows "serialize p = serialize q"
  using assms by (simp add: serialize_def map_writeLine_same)

theorem serialize_ignores_entry_raw_witness:
  "list_all2 same_but_entry_raw
     (lines (snd (addEntry doc1 (str ''B'') (str ''a b''))))
     (lines doc1 @ [Entry (str ''B'') (str ''a b'') False (str ''B='' @ [DQ] @ str ''a b'' @ [DQ])]) \<and>
   serialize (snd (addEntry doc1 (str ''B'') (str ''a b''))) =
   serialize (doc1\<lparr>lines := lines doc1 @
     [Entry (str ''B'') (str ''a b'') False (str ''B='' @ [DQ] @ str ''a b'' @ [DQ])]\<rparr>)"
proof -
  have h: "list_all2 same_but_entry_raw
     (lines (snd (addEntry doc1 (str ''B'') (str ''a b''))))
     (lines (doc1\<lparr>lines := lines doc1 @
        [Entry (str ''B'') (str ''a b'') False (str ''B='' @ [DQ] @ str ''a b'' @ [DQ])]\<rparr>))"
    by (simp add: addEntry_def doc1_def isEntryWithKey_def startsWith_def str_def)
  from serialize_ignores_entry_raw [OF h] h show ?thesis by simp
qed

section \<open>The mutators\<close>

lemma addEntry_has: "hasEntry p k \<Longrightarrow> addEntry p k v = (Inl (alreadyExists k), p)"
  using find_Some_ex [of "isEntryWithKey k" "lines p"]
  by (auto simp: addEntry_def hasEntry_def)

lemma addEntry_hasnt:
  "\<not> hasEntry p k \<Longrightarrow>
   addEntry p k v =
     (Inr (), p\<lparr>lines := lines p @ [Entry k v (startsWith v (str ''encrypted:'')) (k @ [EQ] @ v)]\<rparr>)"
  using find_None_iff_no [of "isEntryWithKey k" "lines p"]
  by (simp add: addEntry_def hasEntry_def)

lemma updateEntry_hasnt: "\<not> hasEntry p k \<Longrightarrow> updateEntry p k v = (Inl (notFound k), p)"
  using find_None_iff_no [of "isEntryWithKey k" "lines p"]
  by (simp add: updateEntry_def hasEntry_def)

lemma updateEntry_has:
  "hasEntry p k \<Longrightarrow> updateEntry p k v = (Inr (), p\<lparr>lines := assignFound k v (lines p)\<rparr>)"
  using find_Some_ex [of "isEntryWithKey k" "lines p"]
  by (auto simp: updateEntry_def hasEntry_def)

lemma deleteEntry_hasnt: "\<not> hasEntry p k \<Longrightarrow> deleteEntry p k = (Inl (notFound k), p)"
  using findIndex_none [of "isEntryWithKey k" "lines p"]
  by (simp add: deleteEntry_def hasEntry_def)

lemma deleteEntry_has:
  "hasEntry p k \<Longrightarrow>
   deleteEntry p k = (Inr (), p\<lparr>lines := splice1 (lines p) (findIndex (isEntryWithKey k) (lines p))\<rparr>)"
  using findIndex_none [of "isEntryWithKey k" "lines p"]
  by (simp add: deleteEntry_def hasEntry_def Let_def)

text \<open>
  Claim C4. addEntry fails, with the "already exists" error, if and only if an Entry with
  the key exists; updateEntry and deleteEntry fail, with the "not found" error, if and
  only if no Entry with the key exists; and a failing call leaves the document exactly as
  it was.
\<close>

theorem mutators_fail_iff:
  "(isl (fst (addEntry p k v)) \<longleftrightarrow> hasEntry p k) \<and>
   (isl (fst (addEntry p k v)) \<longrightarrow> addEntry p k v = (Inl (alreadyExists k), p)) \<and>
   (isl (fst (updateEntry p k v)) \<longleftrightarrow> \<not> hasEntry p k) \<and>
   (isl (fst (updateEntry p k v)) \<longrightarrow> updateEntry p k v = (Inl (notFound k), p)) \<and>
   (isl (fst (deleteEntry p k)) \<longleftrightarrow> \<not> hasEntry p k) \<and>
   (isl (fst (deleteEntry p k)) \<longrightarrow> deleteEntry p k = (Inl (notFound k), p))"
proof (cases "hasEntry p k")
  case True
  then show ?thesis
    by (simp add: addEntry_has updateEntry_has deleteEntry_has)
next
  case False
  then show ?thesis
    by (simp add: addEntry_hasnt updateEntry_hasnt deleteEntry_hasnt)
qed

theorem mutators_fail_iff_witness:
  "hasEntry doc1 (str ''A'') \<and>
   addEntry doc1 (str ''A'') (str ''2'') = (Inl (alreadyExists (str ''A'')), doc1) \<and>
   \<not> hasEntry doc1 (str ''B'') \<and>
   updateEntry doc1 (str ''B'') (str ''2'') = (Inl (notFound (str ''B'')), doc1) \<and>
   deleteEntry doc1 (str ''B'') = (Inl (notFound (str ''B'')), doc1)"
proof -
  have a: "hasEntry doc1 (str ''A'')"
    by (simp add: doc1_def hasEntry_def isEntryWithKey_def str_def)
  have b: "\<not> hasEntry doc1 (str ''B'')"
    by (simp add: doc1_def hasEntry_def isEntryWithKey_def str_def)
  from a mutators_fail_iff [of doc1 "str ''A''" "str ''2''"]
  have 1: "addEntry doc1 (str ''A'') (str ''2'') = (Inl (alreadyExists (str ''A'')), doc1)"
    by blast
  from b mutators_fail_iff [of doc1 "str ''B''" "str ''2''"]
  have 2: "updateEntry doc1 (str ''B'') (str ''2'') = (Inl (notFound (str ''B'')), doc1)"
    and 3: "deleteEntry doc1 (str ''B'') = (Inl (notFound (str ''B'')), doc1)"
    by blast+
  from a b 1 2 3 show ?thesis by blast
qed

text \<open>
  Claim C5. For a key that no Entry of the document has, addEntry succeeds and appends
  exactly one new Entry at the end of the line sequence, with the supplied key and value;
  the lines that were there stay as they were.
\<close>

theorem addEntry_appends:
  assumes "\<not> hasEntry p k"
  shows "fst (addEntry p k v) = Inr () \<and>
         lines (snd (addEntry p k v)) =
           lines p @ [Entry k v (startsWith v (str ''encrypted:'')) (k @ [EQ] @ v)] \<and>
         filepath (snd (addEntry p k v)) = filepath p"
  using assms by (simp add: addEntry_hasnt)

theorem addEntry_appends_witness:
  "\<not> hasEntry doc1 (str ''B'') \<and>
   fst (addEntry doc1 (str ''B'') (str ''a b'')) = Inr () \<and>
   lines (snd (addEntry doc1 (str ''B'') (str ''a b''))) =
     [Comment (str ''# db''), Entry (str ''A'') (str ''1'') False (str ''A=1''),
      Entry (str ''B'') (str ''a b'') False (str ''B=a b'')]"
proof -
  have h: "\<not> hasEntry doc1 (str ''B'')"
    by (simp add: doc1_def hasEntry_def isEntryWithKey_def str_def)
  have e: "\<not> startsWith (str ''a b'') (str ''encrypted:'')"
    by (simp add: startsWith_def str_def)
  have l: "lines doc1 = [Comment (str ''# db''), Entry (str ''A'') (str ''1'') False (str ''A=1'')]"
    by (simp add: doc1_def)
  have r: "str ''B'' @ [EQ] @ str ''a b'' = str ''B=a b''"
    by (simp add: str_def)
  from addEntry_appends [OF h, of "str ''a b''"] h e l r show ?thesis by simp
qed

text \<open>
  Claim C6. When the document has an Entry with the key, deleteEntry removes exactly the
  first such Entry: the lines before it (none of which is an Entry with that key) and the
  lines after it (later duplicates included) stay, unchanged and in order.
\<close>

theorem deleteEntry_removes_first:
  assumes "hasEntry p k"
  shows "\<exists>pre e post.
           lines p = pre @ e # post \<and> isEntryWithKey k e \<and>
           (\<forall>l\<in>set pre. \<not> isEntryWithKey k l) \<and>
           deleteEntry p k = (Inr (), p\<lparr>lines := pre @ post\<rparr>)"
proof -
  from assms have "\<exists>l\<in>set (lines p). isEntryWithKey k l"
    by (simp add: hasEntry_def)
  from findIndex_split [OF this] obtain pre e post where
    h: "lines p = pre @ e # post" "isEntryWithKey k e" "\<forall>l\<in>set pre. \<not> isEntryWithKey k l"
       "findIndex (isEntryWithKey k) (lines p) = int (length pre)"
    by blast
  have "splice1 (lines p) (findIndex (isEntryWithKey k) (lines p)) = pre @ post"
    using h(1) h(4) splice1_at [of pre e post] by simp
  with assms have "deleteEntry p k = (Inr (), p\<lparr>lines := pre @ post\<rparr>)"
    by (simp add: deleteEntry_has)
  with h show ?thesis by blast
qed

theorem deleteEntry_removes_first_witness:
  "hasEntry doc2 (str ''A'') \<and>
   deleteEntry doc2 (str ''A'') =
     (Inr (), doc2\<lparr>lines := [Comment (str ''# db''), Unknown (str ''junk''),
                              Entry (str ''B'') (str ''2'') False (str ''B=2''),
                              Entry (str ''A'') (str ''3'') False (str ''A=3'')]\<rparr>)"
proof -
  have h: "hasEntry doc2 (str ''A'')"
    by (simp add: doc2_def hasEntry_def isEntryWithKey_def str_def)
  from deleteEntry_removes_first [OF h] obtain pre e post where
    d: "lines doc2 = pre @ e # post" "isEntryWithKey (str ''A'') e"
       "\<forall>l\<in>set pre. \<not> isEntryWithKey (str ''A'') l"
       "deleteEntry doc2 (str ''A'') = (Inr (), doc2\<lparr>lines := pre @ post\<rparr>)"
    by blast
  have "pre = [Comment (str ''# db'')]"
  proof (cases pre)
    case Nil
    with d(1,2) show ?thesis by (auto simp: doc2_def isEntryWithKey_def)
  next
    case (Cons a pre')
    show ?thesis
    proof (cases pre')
      case Nil
      with Cons d(1) show ?thesis by (simp add: doc2_def)
    next
      case (Cons b pre'')
      with \<open>pre = a # pre'\<close> d(1,3) show ?thesis
        by (auto simp: doc2_def isEntryWithKey_def)
    qed
  qed
  with d(1) have "pre @ post = [Comment (str ''# db''), Unknown (str ''junk''),
                              Entry (str ''B'') (str ''2'') False (str ''B=2''),
                              Entry (str ''A'') (str ''3'') False (str ''A=3'')]"
    by (simp add: doc2_def)
  with h d(4) show ?thesis by simp
qed

section \<open>The parser\<close>

lemma parse_loop_eq: "parse_loop ls acc = acc @ map parseLine ls"
  by (induction ls arbitrary: acc) simp_all

lemma lines_parseContent: "lines (parseContent path content) = map parseLine (split_str content LF)"
  by (simp add: parseContent_def parse_loop_eq)

lemma parseLine_entry:
  assumes "trim raw \<noteq> []" "hd (trim raw) \<noteq> HASH" "raw = before @ EQ # after" "EQ \<notin> set before"
  shows "parseLine raw =
           Entry (trim before) (handleQuoted after)
             (startsWith (handleQuoted after) (str ''encrypted:'')) raw"
proof -
  from assms(3,4) have "EQ \<in> set raw" by simp
  from indexOf_split [OF this] obtain b a where
    h: "raw = b @ EQ # a" "EQ \<notin> set b" "indexOf raw EQ = int (length b)"
    by blast
  from assms(3,4) h(1,2) have "b = before \<and> a = after"
    using split_first_unique [of b EQ a before after] by simp
  with h have i: "indexOf raw EQ = int (length before)" by simp
  have s1: "substring raw 0 (int (length before)) = before"
    using assms(3) substring_before by simp
  have s2: "substring_from raw (int (length before) + 1) = after"
    using assms(3) substring_after by simp
  show ?thesis
    using assms(1,2) by (simp add: parseLine_def Let_def startsWith_single i s1 s2)
qed

lemma parseLine_cases:
  "parseLine raw =
     (if trim raw = [] then Empty raw
      else if hd (trim raw) = HASH then Comment raw
      else if EQ \<in> set raw
        then Entry (line_key (parseLine raw)) (line_value (parseLine raw))
               (line_encrypted (parseLine raw)) raw
      else Unknown raw)"
  by (simp add: parseLine_def Let_def startsWith_single indexOf_none)

lemma variant_parseLine: "variant_of (parseLine raw) = spec_classify raw"
  by (subst parseLine_cases) (simp add: spec_classify_def)

lemma line_raw_parseLine: "line_raw (parseLine raw) = raw"
  by (subst parseLine_cases) simp

text \<open>
  Claim C8. Parsing is total on the content: when the file can be read, parseEnvFile
  returns a document and raises nothing; each input line (the segments between line
  feeds, which joined by line feeds give the content back) maps to exactly one line of
  the document, which keeps it as rawText; and the variant is Blank when the line is empty
  after trimming, Comment when it starts with \<open>#\<close> after trimming, Entry when it
  contains \<open>=\<close>, Unrecognized otherwise.
\<close>

theorem parse_total_classifies:
  assumes "files fs path = Some content"
  shows "\<exists>doc. parseEnvFile fs path = Inr doc \<and>
           map line_raw (lines doc) = split_str content LF \<and>
           spec_join (map line_raw (lines doc)) = content \<and>
           (\<forall>l\<in>set (lines doc). LF \<notin> set (line_raw l)) \<and>
           map variant_of (lines doc) = map spec_classify (map line_raw (lines doc))"
proof -
  let ?doc = "parseContent path content"
  have 1: "parseEnvFile fs path = Inr ?doc"
    using assms by (simp add: parseEnvFile_def readFileSync_def)
  have 2: "map line_raw (lines ?doc) = split_str content LF"
    by (simp add: lines_parseContent line_raw_parseLine cong: map_cong)
  have 3: "spec_join (map line_raw (lines ?doc)) = content"
    by (simp only: 2 spec_join_split)
  have 4: "\<forall>l\<in>set (lines ?doc). LF \<notin> set (line_raw l)"
    by (auto simp: lines_parseContent line_raw_parseLine dest: split_str_no_sep)
  have 5: "map variant_of (lines ?doc) = map spec_classify (map line_raw (lines ?doc))"
    by (simp add: lines_parseContent line_raw_parseLine variant_parseLine)
  from 1 2 3 4 5 show ?thesis by blast
qed

theorem parse_total_classifies_witness:
  "parseEnvFile \<lparr>files = [str ''.env'' \<mapsto> str ''# db'' @ [LF] @ str ''A = 1'' @ [LF] @ str ''junk'' @ [LF]],
                  writable = (\<lambda>p. True)\<rparr> (str ''.env'') =
     Inr \<lparr>filepath = str ''.env'',
          lines = [Comment (str ''# db''), Entry (str ''A'') (str ''1'') False (str ''A = 1''),
                   Unknown (str ''junk''), Empty []]\<rparr> \<and>
   map spec_classify [str ''# db'', str ''A = 1'', str ''junk'', []] =
     [CommentLine, EntryLine, Unrecognized, Blank]"
proof -
  let ?fs = "\<lparr>files = [str ''.env'' \<mapsto> str ''# db'' @ [LF] @ str ''A = 1'' @ [LF] @ str ''junk'' @ [LF]],
                  writable = (\<lambda>p. True)\<rparr>"
  have h: "files ?fs (str ''.env'') = Some (str ''# db'' @ [LF] @ str ''A = 1'' @ [LF] @ str ''junk'' @ [LF])"
    by simp
  have e: "parseEnvFile ?fs (str ''.env'') =
     Inr \<lparr>filepath = str ''.env'',
          lines = [Comment (str ''# db''), Entry (str ''A'') (str ''1'') False (str ''A = 1''),
                   Unknown (str ''junk''), Empty []]\<rparr>"
    by (simp add: parseEnvFile_def readFileSync_def parseContent_def parseLine_def handleQuoted_def
        trim_def isWhiteSpace_def startsWith_def endsWith_def substring_def substring_from_def
        slice_def str_def Let_def)
  from parse_total_classifies [OF h] obtain doc where
    d: "parseEnvFile ?fs (str ''.env'') = Inr doc"
       "map variant_of (lines doc) = map spec_classify (map line_raw (lines doc))"
    by blast
  from d(1) e have "lines doc = [Comment (str ''# db''),
      Entry (str ''A'') (str ''1'') False (str ''A = 1''), Unknown (str ''junk''), Empty []]"
    by simp
  with d(2) have "map spec_classify [str ''# db'', str ''A = 1'', str ''junk'', []] =
     [CommentLine, EntryLine, Unrecognized, Blank]"
    by simp
  with e show ?thesis by simp
qed

section \<open>Quoted values and the first \<open>=\<close>\<close>

lemma endsWith_single: "endsWith s [c] \<longleftrightarrow> s \<noteq> [] \<and> last s = c"
proof (cases s rule: rev_cases)
  case Nil
  then show ?thesis by (simp add: endsWith_def)
next
  case (snoc ys y)
  then show ?thesis by (auto simp: endsWith_def)
qed

lemma slice_inner: "slice t 1 (-1) = butlast (tl t)"
proof -
  have "slice t 1 (-1) = take (length t - 2) (drop 1 t)"
    by (cases t) (auto simp: slice_def Let_def nat_diff_distrib max_def)
  also have "\<dots> = butlast (tl t)"
    by (simp add: butlast_conv_take drop_Suc numeral_2_eq_2)
  finally show ?thesis .
qed

lemma handleQuoted_eq:
  "handleQuoted rhs =
     (let t = trim rhs in
      if t \<noteq> [] \<and> ((hd t = DQ \<and> last t = DQ) \<or> (hd t = SQ \<and> last t = SQ))
      then butlast (tl t) else t)"
  by (auto simp: handleQuoted_def Let_def startsWith_single endsWith_single slice_inner)

lemma handleQuoted_spec_value:
  assumes "length (trim rhs) \<noteq> 1"
  shows "handleQuoted rhs = spec_value rhs"
proof -
  from assms have "trim rhs \<noteq> [] \<longleftrightarrow> 2 \<le> length (trim rhs)"
    by (cases "trim rhs") (auto simp: Suc_le_eq)
  then show ?thesis
    by (simp add: handleQuoted_eq spec_value_def Let_def)
qed

text \<open>
  Claim C2. The value of an entry is the trimmed right side of the first \<open>=\<close>, with
  one leading and one trailing quote character stripped when the trimmed text starts and
  ends with the same quote character and has length at least 2, and verbatim otherwise.
  The source has no length test: on the line \<open>A="\<close> the one quote character is both
  the start and the end, \<open>slice(1, -1)\<close> gives the empty string, and the file is
  saved as \<open>A=\<close>, where the claim gives the value \<open>"\<close>. For every other
  length of the trimmed text the source and the claim agree
  (\<open>handleQuoted_spec_value\<close>).
\<close>

theorem lone_quote_value:
  "parseLine (str ''A='' @ [DQ]) = Entry (str ''A'') [] False (str ''A='' @ [DQ]) \<and>
   spec_value [DQ] = [DQ] \<and>
   serialize (parseContent (str ''.env'') (str ''A='' @ [DQ])) = str ''A=''"
  by (simp add: parseLine_def handleQuoted_def trim_def isWhiteSpace_def startsWith_def
      endsWith_def substring_def substring_from_def slice_def str_def Let_def spec_value_def
      serialize_def parseContent_def join_str_def needsQuotes_def)

lemma is_Entry_parseLine:
  "is_Entry (parseLine raw) \<longleftrightarrow> trim raw \<noteq> [] \<and> hd (trim raw) \<noteq> HASH \<and> EQ \<in> set raw"
  by (subst parseLine_cases) simp

text \<open>
  Claim C7, as stated: the line is split at the first unescaped \<open>=\<close>. The source
  splits at the first \<open>=\<close> whether a backslash precedes it or not: on
  \<open>A\=B=C\<close> the first unescaped \<open>=\<close> is at index 4, and the key of the source is
  \<open>A\<close> followed by the backslash, not \<open>A\=B\<close>.
\<close>

theorem first_unescaped_eq_counterexample:
  "is_Entry (parseLine (str ''A'' @ [BACKSLASH] @ str ''=B=C'')) \<and>
   spec_first_unescaped EQ (str ''A'' @ [BACKSLASH] @ str ''=B=C'') = Some 4 \<and>
   trim (take 4 (str ''A'' @ [BACKSLASH] @ str ''=B=C'')) = str ''A'' @ [BACKSLASH] @ str ''=B'' \<and>
   line_key (parseLine (str ''A'' @ [BACKSLASH] @ str ''=B=C'')) = str ''A'' @ [BACKSLASH] \<and>
   line_key (parseLine (str ''A'' @ [BACKSLASH] @ str ''=B=C'')) \<noteq>
     trim (take 4 (str ''A'' @ [BACKSLASH] @ str ''=B=C''))"
  by (simp add: parseLine_def handleQuoted_def trim_def isWhiteSpace_def startsWith_def
      endsWith_def substring_def substring_from_def slice_def str_def Let_def)

text \<open>
  Claim C7, amended. For every line classified as an Entry, the line is split at its first
  \<open>=\<close> character, escaped or not: the key is the trimmed text before it, and the value
  is computed from everything after it, so a value may itself contain \<open>=\<close>.
\<close>

theorem parse_splits_at_first_eq:
  assumes "is_Entry (parseLine raw)"
  shows "\<exists>before after.
           raw = before @ [EQ] @ after \<and> EQ \<notin> set before \<and>
           line_key (parseLine raw) = trim before \<and>
           line_value (parseLine raw) = handleQuoted after"
proof -
  from assms have t: "trim raw \<noteq> []" "hd (trim raw) \<noteq> HASH" and e: "EQ \<in> set raw"
    by (simp_all add: is_Entry_parseLine)
  from indexOf_split [OF e] obtain before after where
    h: "raw = before @ EQ # after" "EQ \<notin> set before"
    by blast
  from parseLine_entry [OF t h] have
    "line_key (parseLine raw) = trim before \<and> line_value (parseLine raw) = handleQuoted after"
    by simp
  with h show ?thesis by auto
qed

theorem parse_splits_at_first_eq_witness:
  "is_Entry (parseLine (str ''A'' @ [BACKSLASH] @ str ''=B=C'')) \<and>
   line_key (parseLine (str ''A'' @ [BACKSLASH] @ str ''=B=C'')) = trim (str ''A'' @ [BACKSLASH]) \<and>
   line_value (parseLine (str ''A'' @ [BACKSLASH] @ str ''=B=C'')) = handleQuoted (str ''B=C'') \<and>
   handleQuoted (str ''B=C'') = str ''B=C''"
proof -
  let ?raw = "str ''A'' @ [BACKSLASH] @ str ''=B=C''"
  have e: "is_Entry (parseLine ?raw)"
    by (simp add: is_Entry_parseLine trim_def isWhiteSpace_def str_def)
  from parse_splits_at_first_eq [OF e] obtain before after where
    h: "?raw = before @ [EQ] @ after" "EQ \<notin> set before"
       "line_key (parseLine ?raw) = trim before"
       "line_value (parseLine ?raw) = handleQuoted after"
    by blast
  have r: "?raw = (str ''A'' @ [BACKSLASH]) @ EQ # str ''B=C''"
    by (simp add: str_def)
  have n: "EQ \<notin> set (str ''A'' @ [BACKSLASH])"
    by (simp add: str_def)
  from h(1) r have "before @ EQ # after = (str ''A'' @ [BACKSLASH]) @ EQ # str ''B=C''"
    by simp
  from split_first_unique [OF this h(2) n] have "before = str ''A'' @ [BACKSLASH]" "after = str ''B=C''"
    by simp_all
  moreover have "handleQuoted (str ''B=C'') = str ''B=C''"
    by (simp add: handleQuoted_def trim_def isWhiteSpace_def startsWith_def endsWith_def str_def)
  ultimately show ?thesis using e h(3,4) by simp
qed

section \<open>The encrypted marker\<close>

lemma startsWith_prefix: "startsWith s p \<longleftrightarrow> prefix p s"
proof
  assume "startsWith s p"
  then have "s = p @ drop (length p) s"
    by (metis append_take_drop_id startsWith_def)
  then show "prefix p s" by (metis prefixI)
next
  assume "prefix p s"
  then show "startsWith s p" by (auto simp: startsWith_def prefix_def)
qed

lemma marker_parseLine: "spec_marker_ok (parseLine raw)"
  by (simp add: parseLine_def Let_def spec_marker_ok_def startsWith_prefix)

lemma marker_assignEntry: "spec_marker_ok l \<Longrightarrow> spec_marker_ok (assignEntry k v l)"
  by (cases l) (simp_all add: spec_marker_ok_def startsWith_prefix)

lemma marker_assignFound:
  "\<forall>l\<in>set ls. spec_marker_ok l \<Longrightarrow> \<forall>l\<in>set (assignFound k v ls). spec_marker_ok l"
  by (induction ls) (simp_all add: marker_assignEntry)

lemma set_splice1: "set (splice1 xs i) \<subseteq> set xs"
  using set_take_subset [of "nat i" xs] set_drop_subset [of "nat i + 1" xs]
  by (auto simp: splice1_def)

lemma marker_add:
  assumes "\<forall>l\<in>set (lines p). spec_marker_ok l" "addEntry p k v = (Inr (), p')"
  shows "\<forall>l\<in>set (lines p'). spec_marker_ok l"
proof (cases "hasEntry p k")
  case True
  with assms(2) show ?thesis by (simp add: addEntry_has)
next
  case False
  with assms(2) have "lines p' =
      lines p @ [Entry k v (startsWith v (str ''encrypted:'')) (k @ [EQ] @ v)]"
    by (auto simp: addEntry_hasnt)
  with assms(1) show ?thesis
    by (simp add: spec_marker_ok_def startsWith_prefix)
qed

lemma marker_update:
  assumes "\<forall>l\<in>set (lines p). spec_marker_ok l" "updateEntry p k v = (Inr (), p')"
  shows "\<forall>l\<in>set (lines p'). spec_marker_ok l"
proof (cases "hasEntry p k")
  case False
  with assms(2) show ?thesis by (simp add: updateEntry_hasnt)
next
  case True
  with assms(2) have "lines p' = assignFound k v (lines p)"
    by (auto simp: updateEntry_has)
  with assms(1) show ?thesis
    using marker_assignFound [of "lines p" k v] by simp
qed

lemma marker_delete:
  assumes "\<forall>l\<in>set (lines p). spec_marker_ok l" "deleteEntry p k = (Inr (), p')"
  shows "\<forall>l\<in>set (lines p'). spec_marker_ok l"
proof (cases "hasEntry p k")
  case False
  with assms(2) show ?thesis by (simp add: deleteEntry_hasnt)
next
  case True
  with assms(2) have "lines p' = splice1 (lines p) (findIndex (isEntryWithKey k) (lines p))"
    by (auto simp: deleteEntry_has)
  with assms(1) show ?thesis
    using set_splice1 [of "lines p" "findIndex (isEntryWithKey k) (lines p)"] by auto
qed

text \<open>
  Claim C9. In every document produced by parsing, and after every successful addEntry or
  updateEntry (and deleteEntry) on such a document, the \<open>isEncryptedMarker\<close> flag of
  each Entry is true if and only if its stored value begins with \<open>encrypted:\<close>.
\<close>

theorem encrypted_marker_invariant:
  assumes "reachable p"
  shows "\<forall>l\<in>set (lines p). spec_marker_ok l"
  using assms
proof (induction rule: reachable.induct)
  case (parse path content)
  show ?case by (simp add: lines_parseContent marker_parseLine)
next
  case (add p k v p')
  then show ?case using marker_add by blast
next
  case (update p k v p')
  then show ?case using marker_update by blast
next
  case (delete p k p')
  then show ?case using marker_delete by blast
qed

lemma parseContent_example:
  "parseContent (str ''.env'') (str ''A=encrypted:abc123'') =
     \<lparr>filepath = str ''.env'',
      lines = [Entry (str ''A'') (str ''encrypted:abc123'') True (str ''A=encrypted:abc123'')]\<rparr>"
  by (simp add: parseContent_def parseLine_def handleQuoted_def trim_def isWhiteSpace_def
      startsWith_def endsWith_def substring_def substring_from_def slice_def str_def Let_def)

theorem encrypted_marker_invariant_witness:
  "reachable
     \<lparr>filepath = str ''.env'',
      lines = [Entry (str ''A'') (str ''plain'') False (str ''A=plain''),
               Entry (str ''B'') (str ''encrypted:x'') True (str ''B=encrypted:x'')]\<rparr> \<and>
   spec_marker_ok (Entry (str ''A'') (str ''plain'') False (str ''A=plain'')) \<and>
   spec_marker_ok (Entry (str ''B'') (str ''encrypted:x'') True (str ''B=encrypted:x''))"
proof -
  let ?p0 = "parseContent (str ''.env'') (str ''A=encrypted:abc123'')"
  let ?p1 = "\<lparr>filepath = str ''.env'',
      lines = [Entry (str ''A'') (str ''encrypted:abc123'') True (str ''A=encrypted:abc123''),
               Entry (str ''B'') (str ''encrypted:x'') True (str ''B=encrypted:x'')]\<rparr>"
  let ?p2 = "\<lparr>filepath = str ''.env'',
      lines = [Entry (str ''A'') (str ''plain'') False (str ''A=plain''),
               Entry (str ''B'') (str ''encrypted:x'') True (str ''B=encrypted:x'')]\<rparr>"
  have r0: "reachable ?p0" by (rule reachable.parse)
  have "addEntry ?p0 (str ''B'') (str ''encrypted:x'') = (Inr (), ?p1)"
    by (simp only: parseContent_example)
      (simp add: addEntry_def isEntryWithKey_def startsWith_def str_def)
  from reachable.add [OF r0 this] have r1: "reachable ?p1" .
  have "updateEntry ?p1 (str ''A'') (str ''plain'') = (Inr (), ?p2)"
    by (simp add: updateEntry_def isEntryWithKey_def startsWith_def str_def)
  from reachable.update [OF r1 this] have r2: "reachable ?p2" .
  from encrypted_marker_invariant [OF r2] r2 show ?thesis by simp
qed

section \<open>Round trip\<close>

lemma first_eq_split:
  assumes "EQ \<in> set raw"
  shows "raw = takeWhile (\<lambda>c. c \<noteq> EQ) raw @ EQ # spec_value_text raw"
proof -
  let ?P = "\<lambda>c. c \<noteq> EQ"
  from assms have ne: "dropWhile ?P raw \<noteq> []" by simp
  then have "hd (dropWhile ?P raw) = EQ"
    using hd_dropWhile [of ?P raw] by simp
  with ne have d: "dropWhile ?P raw = EQ # tl (dropWhile ?P raw)"
    by (cases "dropWhile ?P raw") simp_all
  have "drop (Suc (length (takeWhile ?P raw))) raw = tl (drop (length (takeWhile ?P raw)) raw)"
    by (simp add: drop_Suc tl_drop)
  also have "\<dots> = tl (dropWhile ?P raw)"
    by (simp add: dropWhile_eq_drop)
  finally have "spec_value_text raw = tl (dropWhile ?P raw)"
    by (simp add: spec_value_text_def)
  with d have "dropWhile ?P raw = EQ # spec_value_text raw" by simp
  then show ?thesis
    using takeWhile_dropWhile_id [of ?P raw] by simp
qed

lemma handleQuoted_plain:
  assumes "trim v = v" "\<not> spec_needs_quoting v"
  shows "handleQuoted v = v"
proof -
  from assms(2) have "DQ \<notin> set v" "SQ \<notin> set v"
    by (simp_all add: spec_needs_quoting_def)
  then have "v \<noteq> [] \<longrightarrow> hd v \<noteq> DQ \<and> hd v \<noteq> SQ"
    by (cases v) auto
  with assms(1) show ?thesis
    by (auto simp: handleQuoted_eq Let_def)
qed

lemma writeLine_parseLine_plain:
  assumes "spec_classify raw = EntryLine \<longrightarrow> plain_entry_line raw"
  shows "writeLine (parseLine raw) = raw"
proof (cases "is_Entry (parseLine raw)")
  case False
  then show ?thesis
    by (cases "parseLine raw") (use line_raw_parseLine [of raw] in auto)
next
  case True
  then have t: "trim raw \<noteq> []" "hd (trim raw) \<noteq> HASH" and e: "EQ \<in> set raw"
    by (simp_all add: is_Entry_parseLine)
  let ?k = "takeWhile (\<lambda>c. c \<noteq> EQ) raw"
  let ?v = "spec_value_text raw"
  from t e have "spec_classify raw = EntryLine" by (simp add: spec_classify_def)
  with assms have p: "trim ?k = ?k" "trim ?v = ?v" "\<not> spec_needs_quoting ?v"
    by (simp_all add: plain_entry_line_def Let_def)
  have r: "raw = ?k @ EQ # ?v" by (rule first_eq_split [OF e])
  have n: "EQ \<notin> set ?k" by (auto dest: set_takeWhileD)
  from parseLine_entry [OF t r n] p(1) handleQuoted_plain [OF p(2,3)]
  have "parseLine raw = Entry ?k ?v (startsWith ?v (str ''encrypted:'')) raw" by simp
  then have "writeLine (parseLine raw) = ?k @ [EQ] @ ?v"
    using p(3) by (simp add: needsQuotes_spec)
  with r show ?thesis by simp
qed

text \<open>
  Claim C1, as stated: when no value is single-quoted and no value needs quoting,
  serializing the parsed text gives the text back byte for byte. The serializer rebuilds
  every Entry line from its trimmed key and value, so white space around them is lost: the
  text TAB \<open>A=1\<close> has the value \<open>1\<close> and is written back as \<open>A=1\<close>.
\<close>

theorem roundtrip_counterexample:
  "spec_roundtrip_pre (TAB # str ''A=1'') \<and>
   lines (parseContent (str ''.env'') (TAB # str ''A=1'')) =
     [Entry (str ''A'') (str ''1'') False (TAB # str ''A=1'')] \<and>
   serialize (parseContent (str ''.env'') (TAB # str ''A=1'')) = str ''A=1'' \<and>
   serialize (parseContent (str ''.env'') (TAB # str ''A=1'')) \<noteq> TAB # str ''A=1''"
  by (simp add: spec_roundtrip_pre_def spec_classify_def spec_single_quoted_def
      spec_needs_quoting_def spec_value_def spec_value_text_def
      parseLine_def handleQuoted_def trim_def isWhiteSpace_def startsWith_def
      endsWith_def substring_def substring_from_def slice_def str_def Let_def
      serialize_def parseContent_def join_str_def needsQuotes_def)

text \<open>
  Claim C1, amended. For every text in which every Entry line has no leading or trailing
  white space in the text before its first \<open>=\<close> nor in the text after it, and the
  text after it contains no space, \<open>#\<close>, line feed or quote character, serializing
  the document produced by parsing that text, with no mutation in between, returns the
  original text byte for byte.
\<close>

theorem roundtrip_plain_entries:
  assumes "\<forall>raw\<in>set (split_str text LF). spec_classify raw = EntryLine \<longrightarrow> plain_entry_line raw"
  shows "serialize (parseContent path text) = text"
proof -
  have "map writeLine (map parseLine (split_str text LF)) = split_str text LF"
    using assms by (simp add: map_idI writeLine_parseLine_plain)
  then have "serialize (parseContent path text) = spec_join (split_str text LF)"
    by (simp add: serialize_def lines_parseContent join_str_spec)
  then show ?thesis by (simp add: spec_join_split)
qed

theorem roundtrip_plain_entries_witness:
  "split_str text1 LF = [str ''# db'', str ''A=1'', [], str ''URL=http://h/?a=b'', []] \<and>
   list_all (\<lambda>raw. spec_classify raw \<noteq> EntryLine \<or> plain_entry_line raw) (split_str text1 LF) \<and>
   plain_entry_line (str ''URL=http://h/?a=b'') \<and>
   serialize (parseContent (str ''.env'') text1) = text1"
proof -
  have s: "split_str text1 LF = [str ''# db'', str ''A=1'', [], str ''URL=http://h/?a=b'', []]"
    by (simp add: text1_def str_def)
  have p1: "plain_entry_line (str ''A=1'')"
    by (simp add: plain_entry_line_def spec_value_text_def spec_needs_quoting_def trim_def
        isWhiteSpace_def str_def)
  have p2: "plain_entry_line (str ''URL=http://h/?a=b'')"
    by (simp add: plain_entry_line_def spec_value_text_def spec_needs_quoting_def trim_def
        isWhiteSpace_def str_def)
  have c: "spec_classify (str ''# db'') \<noteq> EntryLine" "spec_classify [] \<noteq> EntryLine"
    by (simp_all add: spec_classify_def trim_def isWhiteSpace_def str_def)
  from s p1 p2 c have h:
    "\<forall>raw\<in>set (split_str text1 LF). spec_classify raw = EntryLine \<longrightarrow> plain_entry_line raw"
    by simp
  from roundtrip_plain_entries [OF h, of "str ''.env''"] s p1 p2 c show ?thesis by simp
qed

end
